theory Spec2Isabelle
  imports Main
begin

section \<open>Data\<close>

text \<open>
  A value bound to a statement parameter or held in a column: Python's \<open>None\<close> is
  SQL \<open>NULL\<close>; a \<open>str\<close>, and a \<open>datetime\<close> after the default adapter of
  \<open>sqlite3\<close>, is text.
\<close>

datatype sqlval = Null | Text string

text \<open>
  The dictionary that \<open>parse_projects\<close> appends for each property item. Only
  \<open>list_id\<close> can be \<open>None\<close> (no link found); the other five are always strings.
\<close>

record project =
  list_id :: "string option"
  title :: string
  location :: string
  budget :: string
  status :: string
  description :: string

text \<open>One row of table \<open>projects\<close>, its columns in the order of \<open>CREATE TABLE\<close>.\<close>

record project_row =
  row_list_id :: sqlval
  row_title :: string
  row_location :: string
  row_budget :: string
  row_status :: string
  row_description :: string
  row_last_updated :: sqlval

text \<open>
  One row of table \<open>changes\<close>. The autoincremented \<open>id\<close> is the position of the
  row in the table, which is kept as a list in insertion order.
\<close>

record change_row =
  ch_list_id :: sqlval
  ch_field_name :: string
  ch_old_value :: string
  ch_new_value :: string
  ch_change_date :: sqlval

text \<open>The dictionaries collected in the local list \<open>changes\<close> of \<open>save_projects\<close>.\<close>

record change =
  field_name :: string
  old_value :: string
  new_value :: string

datatype exn = OperationalError | IntegrityError | DataError | RequestException | ParseError

text \<open>The lines the program prints, one constructor for each \<open>print\<close> call.\<close>

datatype message =
    StartingScrape sqlval
  | NewProjectAdded string
  | ProjectUpdated string nat
  | NoChangesDetected string
  | ErrorProcessingProject "string option" exn
  | SuccessfullyProcessed nat
  | ErrorInScrapeCycle exn

text \<open>
  What the program does not control: the text of the n-th reading of
  \<open>datetime.now()\<close>; whether the n-th \<open>cursor.execute\<close> of the process raises,
  which exception it then raises, and whether SQLite then rolls the open transaction
  back (as it does when the disk is full or on an I/O error) or undoes the statement
  alone (as it does for a value that is too big or a violated constraint); whether
  \<open>sqlite3.connect\<close> and \<open>conn.commit\<close> raise; and what the HTTP fetch and the HTML
  parser deliver.
\<close>

record env =
  now :: "nat \<Rightarrow> string"
  raises :: "nat \<Rightarrow> bool"
  raised :: "nat \<Rightarrow> exn"
  rolls_back :: "nat \<Rightarrow> bool"
  connect_raises :: bool
  commit_raises :: bool
  fetch_projects :: "exn + string"
  parse_projects :: "string \<Rightarrow> exn + project list"

text \<open>
  The state of the process and of its database file: the two tables as committed to
  the file, the two tables as the open connection sees them (its uncommitted
  transaction included), the number of clock readings and of executed statements so
  far, and the printed lines.
\<close>

record state =
  file_projects :: "project_row list"
  file_changes :: "change_row list"
  projects :: "project_row list"
  changes :: "change_row list"
  ticks :: nat
  stmts :: nat
  printed :: "message list"

section \<open>The SQL statements\<close>

definition bind :: "string option \<Rightarrow> sqlval" where
  "bind v = (case v of None \<Rightarrow> Null | Some s \<Rightarrow> Text s)"

text \<open>
  \<open>SELECT * FROM projects WHERE list_id = ?\<close> followed by \<open>fetchone()\<close>: the first
  row whose key equals the parameter. A comparison with \<open>NULL\<close> is never true.
\<close>

definition sql_select :: "sqlval \<Rightarrow> project_row list \<Rightarrow> project_row option" where
  "sql_select key rows =
     (case key of Null \<Rightarrow> None | Text i \<Rightarrow> find (\<lambda>r. row_list_id r = Text i) rows)"

text \<open>
  \<open>INSERT INTO projects (list_id, title, location, budget, status, description,
  last_updated) VALUES (?, ?, ?, ?, ?, ?, ?)\<close>, the parameters in the order of the
  placeholders. The primary key is unique among the rows whose key is not \<open>NULL\<close>;
  SQLite accepts any number of \<open>NULL\<close> keys in a \<open>TEXT PRIMARY KEY\<close> column.
\<close>

definition sql_insert_project ::
  "sqlval \<Rightarrow> string \<Rightarrow> string \<Rightarrow> string \<Rightarrow> string \<Rightarrow> string \<Rightarrow> sqlval \<Rightarrow>
   project_row list \<Rightarrow> exn + project_row list" where
  "sql_insert_project p1 p2 p3 p4 p5 p6 p7 rows =
     (if p1 \<noteq> Null \<and> list_ex (\<lambda>r. row_list_id r = p1) rows then Inl IntegrityError
      else Inr (rows @ [\<lparr>row_list_id = p1, row_title = p2, row_location = p3,
                         row_budget = p4, row_status = p5, row_description = p6,
                         row_last_updated = p7\<rparr>]))"

text \<open>
  \<open>UPDATE projects SET title = ?, location = ?, budget = ?, status = ?,
  description = ?, last_updated = ? WHERE list_id = ?\<close>, the parameters in the order
  of the placeholders: the sixth is stored in \<open>last_updated\<close>, the seventh selects
  the rows.
\<close>

definition sql_update_project ::
  "string \<Rightarrow> string \<Rightarrow> string \<Rightarrow> string \<Rightarrow> string \<Rightarrow> sqlval \<Rightarrow> sqlval \<Rightarrow>
   project_row list \<Rightarrow> project_row list" where
  "sql_update_project p1 p2 p3 p4 p5 p6 p7 rows =
     map (\<lambda>r. if p7 \<noteq> Null \<and> row_list_id r = p7
               then r\<lparr>row_title := p1, row_location := p2, row_budget := p3,
                      row_status := p4, row_description := p5, row_last_updated := p6\<rparr>
               else r) rows"

text \<open>
  \<open>INSERT INTO changes (list_id, field_name, old_value, new_value, change_date)
  VALUES (?, ?, ?, ?, ?)\<close>.
\<close>

definition sql_insert_change ::
  "sqlval \<Rightarrow> string \<Rightarrow> string \<Rightarrow> string \<Rightarrow> sqlval \<Rightarrow> change_row list \<Rightarrow> change_row list" where
  "sql_insert_change p1 p2 p3 p4 p5 rows =
     rows @ [\<lparr>ch_list_id = p1, ch_field_name = p2, ch_old_value = p3,
              ch_new_value = p4, ch_change_date = p5\<rparr>]"

section \<open>The cursor\<close>

text \<open>
  The automatic rollback of SQLite: the uncommitted writes of the connection are lost,
  and its view is again that of the file.
\<close>

definition rollback :: "state \<Rightarrow> state" where
  "rollback s = s\<lparr>projects := file_projects s, changes := file_changes s\<rparr>"

text \<open>
  What a statement that raises leaves behind: the statement itself never takes effect;
  the earlier uncommitted writes stay, unless SQLite rolls the transaction back.
\<close>

definition fail :: "env \<Rightarrow> nat \<Rightarrow> state \<Rightarrow> state" where
  "fail e n s = (if rolls_back e n then rollback s else s)"

text \<open>
  \<open>cursor.execute\<close> of a writing statement: the statement is counted, and it either
  raises or takes effect in the connection's view. A violated constraint raises from
  the statement itself and undoes the statement alone.
\<close>

definition execute :: "env \<Rightarrow> (state \<Rightarrow> exn + state) \<Rightarrow> state \<Rightarrow> exn option \<times> state" where
  "execute e stmt s =
     (let s1 = s\<lparr>stmts := Suc (stmts s)\<rparr>
      in if raises e (stmts s) then (Some (raised e (stmts s)), fail e (stmts s) s1)
         else (case stmt s1 of Inl x \<Rightarrow> (Some x, s1) | Inr s2 \<Rightarrow> (None, s2)))"

text \<open>\<open>cursor.execute\<close> of the \<open>SELECT\<close>, and \<open>cursor.fetchone()\<close>.\<close>

definition execute_select ::
  "env \<Rightarrow> sqlval \<Rightarrow> state \<Rightarrow> (exn + project_row option) \<times> state" where
  "execute_select e key s =
     (let s1 = s\<lparr>stmts := Suc (stmts s)\<rparr>
      in if raises e (stmts s) then (Inl (raised e (stmts s)), fail e (stmts s) s1)
         else (Inr (sql_select key (projects s1)), s1))"

text \<open>\<open>datetime.now()\<close>: the next reading of the clock, as the text SQLite stores.\<close>

definition datetime_now :: "env \<Rightarrow> state \<Rightarrow> sqlval \<times> state" where
  "datetime_now e s = (Text (now e (ticks s)), s\<lparr>ticks := Suc (ticks s)\<rparr>)"

definition print :: "message \<Rightarrow> state \<Rightarrow> state" where
  "print m s = s\<lparr>printed := printed s @ [m]\<rparr>"

section \<open>save_projects\<close>

definition fields :: "string list" where
  "fields = [''title'', ''location'', ''budget'', ''status'', ''description'']"

text \<open>\<open>fields.index(field)\<close>, for a field of the list.\<close>

fun index_of :: "string \<Rightarrow> string list \<Rightarrow> nat" where
  "index_of x [] = 0"
| "index_of x (y # ys) = (if x = y then 0 else Suc (index_of x ys))"

text \<open>\<open>existing[i]\<close> for the positions 1 to 5 of the fetched row, the tracked columns.\<close>

definition existing_at :: "project_row \<Rightarrow> nat \<Rightarrow> string" where
  "existing_at r i =
     [row_title r, row_location r, row_budget r, row_status r, row_description r] ! (i - 1)"

text \<open>\<open>project[field]\<close> for a tracked field.\<close>

definition project_get :: "project \<Rightarrow> string \<Rightarrow> string" where
  "project_get p f =
     (if f = ''title'' then title p
      else if f = ''location'' then location p
      else if f = ''budget'' then budget p
      else if f = ''status'' then status p
      else description p)"

text \<open>The loop \<open>for field in fields\<close> that fills the list \<open>changes\<close>.\<close>

definition compare_fields :: "project_row \<Rightarrow> project \<Rightarrow> change list" where
  "compare_fields existing p =
     concat (map (\<lambda>f. let old = existing_at existing (index_of f fields + 1);
                           new = project_get p f
                       in if old \<noteq> new
                          then [\<lparr>field_name = f, old_value = old, new_value = new\<rparr>]
                          else []) fields)"

text \<open>
  The loop \<open>for change in changes\<close>: each entry takes its own clock reading and its own
  \<open>INSERT\<close>; a statement that raises ends the loop, and the program undoes nothing:
  the earlier inserts stay unless SQLite itself rolls the transaction back.
\<close>

fun log_changes :: "env \<Rightarrow> project \<Rightarrow> change list \<Rightarrow> state \<Rightarrow> exn option \<times> state" where
  "log_changes e p [] s = (None, s)"
| "log_changes e p (c # cs) s =
     (case datetime_now e s of (t, s1) \<Rightarrow>
        (case execute e (\<lambda>s. Inr (s\<lparr>changes :=
                 sql_insert_change (bind (list_id p)) (field_name c) (old_value c)
                   (new_value c) t (changes s)\<rparr>)) s1 of
           (Some x, s2) \<Rightarrow> (Some x, s2)
         | (None, s2) \<Rightarrow> log_changes e p cs s2))"

text \<open>
  The body of the \<open>try\<close> block for one project. The tuple bound to the \<open>UPDATE\<close> is
  the five field values followed by \<open>project['list_id']\<close> and \<open>datetime.now()\<close>, in
  this order (\<open>values.extend([project['list_id'], datetime.now()])\<close>).
\<close>

definition try_project :: "env \<Rightarrow> project \<Rightarrow> state \<Rightarrow> exn option \<times> state" where
  "try_project e p s =
     (case execute_select e (bind (list_id p)) s of
        (Inl x, s1) \<Rightarrow> (Some x, s1)
      | (Inr None, s1) \<Rightarrow>
          (case datetime_now e s1 of (t, s2) \<Rightarrow>
             (case execute e (\<lambda>s. map_sum id (\<lambda>rows. s\<lparr>projects := rows\<rparr>)
                       (sql_insert_project (bind (list_id p)) (title p) (location p)
                          (budget p) (status p) (description p) t (projects s))) s2 of
                (Some x, s3) \<Rightarrow> (Some x, s3)
              | (None, s3) \<Rightarrow> (None, print (NewProjectAdded (title p)) s3)))
      | (Inr (Some existing), s1) \<Rightarrow>
          (let chs = compare_fields existing p
           in if chs \<noteq> [] then
                (case datetime_now e s1 of (t, s2) \<Rightarrow>
                   (case execute e (\<lambda>s. Inr (s\<lparr>projects :=
                             sql_update_project (project_get p (fields ! 0))
                               (project_get p (fields ! 1)) (project_get p (fields ! 2))
                               (project_get p (fields ! 3)) (project_get p (fields ! 4))
                               (bind (list_id p)) t (projects s)\<rparr>)) s2 of
                      (Some x, s3) \<Rightarrow> (Some x, s3)
                    | (None, s3) \<Rightarrow>
                        (case log_changes e p chs s3 of
                           (Some x, s4) \<Rightarrow> (Some x, s4)
                         | (None, s4) \<Rightarrow>
                             (None, print (ProjectUpdated (title p) (length chs)) s4))))
              else (None, print (NoChangesDetected (title p)) s1)))"

text \<open>
  One iteration of \<open>for project in projects\<close>: the \<open>try\<close> block and its handler
  \<open>except Exception\<close>, which prints and continues with the next project.
\<close>

definition process_project :: "env \<Rightarrow> project \<Rightarrow> state \<Rightarrow> state" where
  "process_project e p s =
     (case try_project e p s of
        (Some x, s1) \<Rightarrow> print (ErrorProcessingProject (list_id p) x) s1
      | (None, s1) \<Rightarrow> s1)"

definition for_projects :: "env \<Rightarrow> project list \<Rightarrow> state \<Rightarrow> state" where
  "for_projects e ps s = fold (process_project e) ps s"

text \<open>
  \<open>sqlite3.connect\<close>: the connection starts from the tables of the file.
  \<open>conn.commit()\<close>: the connection's tables become the tables of the file.
\<close>

definition connect :: "state \<Rightarrow> state" where
  "connect s = s\<lparr>projects := file_projects s, changes := file_changes s\<rparr>"

definition commit :: "state \<Rightarrow> state" where
  "commit s = s\<lparr>file_projects := projects s, file_changes := changes s\<rparr>"

definition save_projects :: "env \<Rightarrow> project list \<Rightarrow> state \<Rightarrow> exn option \<times> state" where
  "save_projects e ps s =
     (if connect_raises e then (Some OperationalError, s)
      else let s1 = for_projects e ps (connect s)
           in if commit_raises e then (Some OperationalError, s1)
              else (None, commit s1))"

section \<open>scrape_and_save\<close>

text \<open>
  One cycle. The fetch and the parser are taken from the environment; whatever is raised
  inside the \<open>try\<close> block is caught by \<open>except Exception\<close> and printed.
\<close>

definition scrape_and_save :: "env \<Rightarrow> state \<Rightarrow> exn option \<times> state" where
  "scrape_and_save e s =
     (case datetime_now e s of (t, s0) \<Rightarrow>
        (let s1 = print (StartingScrape t) s0
         in case fetch_projects e of
              Inl x \<Rightarrow> (None, print (ErrorInScrapeCycle x) s1)
            | Inr html_content \<Rightarrow>
                (case parse_projects e html_content of
                   Inl x \<Rightarrow> (None, print (ErrorInScrapeCycle x) s1)
                 | Inr ps \<Rightarrow>
                     (case save_projects e ps s1 of
                        (Some x, s2) \<Rightarrow> (None, print (ErrorInScrapeCycle x) s2)
                      | (None, s2) \<Rightarrow>
                          (None, print (SuccessfullyProcessed (length ps)) s2)))))"

section \<open>The start of the process\<close>

text \<open>
  \<open>setup_database\<close>: connect, the two \<open>CREATE TABLE IF NOT EXISTS\<close>, commit. A table
  that the file does not hold yet is an empty table afterwards; the model keeps an
  absent table as the empty list, so both statements leave the tables as they are.
  Nothing in the function catches what the connection or a statement raises.
\<close>

definition setup_database :: "env \<Rightarrow> state \<Rightarrow> exn option \<times> state" where
  "setup_database e s =
     (if connect_raises e then (Some OperationalError, s)
      else case execute e Inr (connect s) of
             (Some x, s1) \<Rightarrow> (Some x, s1)
           | (None, s1) \<Rightarrow>
               (case execute e Inr s1 of
                  (Some x, s2) \<Rightarrow> (Some x, s2)
                | (None, s2) \<Rightarrow>
                    if commit_raises e then (Some OperationalError, s2)
                    else (None, commit s2)))"

text \<open>
  The runs that \<open>schedule.run_pending()\<close> starts inside \<open>while True\<close>, one environment
  for each run: an exception that came out of a run would come out of the loop.
\<close>

fun run_pending :: "env list \<Rightarrow> state \<Rightarrow> exn option \<times> state" where
  "run_pending [] s = (None, s)"
| "run_pending (e # es) s =
     (case scrape_and_save e s of
        (Some x, s1) \<Rightarrow> (Some x, s1)
      | (None, s1) \<Rightarrow> run_pending es s1)"

text \<open>
  The block under \<open>if __name__ == "__main__"\<close>: \<open>setup_database()\<close>, the initial
  \<open>scrape_and_save()\<close> and the scheduled runs, none of them inside a \<open>try\<close>. A
  result \<open>Some x\<close> is an exception that ends the process.
\<close>

definition main_block :: "env \<Rightarrow> env list \<Rightarrow> state \<Rightarrow> exn option \<times> state" where
  "main_block e es s =
     (case setup_database e s of
        (Some x, s1) \<Rightarrow> (Some x, s1)
      | (None, s1) \<Rightarrow>
          (case scrape_and_save e s1 of
             (Some x, s2) \<Rightarrow> (Some x, s2)
           | (None, s2) \<Rightarrow> run_pending es s2))"

section \<open>The rows a project writes\<close>

text \<open>The row that the \<open>INSERT\<close> of a new project adds, with clock reading \<open>t\<close>.\<close>

definition inserted :: "project \<Rightarrow> sqlval \<Rightarrow> project_row" where
  "inserted p t = \<lparr>row_list_id = bind (list_id p), row_title = title p,
       row_location = location p, row_budget = budget p, row_status = status p,
       row_description = description p, row_last_updated = t\<rparr>"

text \<open>The row that the \<open>INSERT\<close> of one change adds, with clock reading \<open>t\<close>.\<close>

definition logged :: "project \<Rightarrow> change \<Rightarrow> sqlval \<Rightarrow> change_row" where
  "logged p c t = \<lparr>ch_list_id = bind (list_id p), ch_field_name = field_name c,
       ch_old_value = old_value c, ch_new_value = new_value c, ch_change_date = t\<rparr>"

text \<open>
  The rows that the loop over the changes adds when every \<open>INSERT\<close> runs, the first
  of them with the \<open>t\<close>-th clock reading, each later one with the next reading.
\<close>

fun logged_rows :: "env \<Rightarrow> project \<Rightarrow> nat \<Rightarrow> change list \<Rightarrow> change_row list" where
  "logged_rows e p t [] = []"
| "logged_rows e p t (c # cs) = logged p c (Text (now e t)) # logged_rows e p (Suc t) cs"

text \<open>The state after the \<open>UPDATE\<close> of project \<open>p\<close> has run in state \<open>s\<close>.\<close>

definition updated :: "env \<Rightarrow> project \<Rightarrow> state \<Rightarrow> state" where
  "updated e p s =
     s\<lparr>ticks := Suc (ticks s), stmts := Suc (Suc (stmts s)),
       projects := sql_update_project (title p) (location p) (budget p) (status p)
                     (description p) (bind (list_id p)) (Text (now e (ticks s))) (projects s)\<rparr>"

text \<open>
  What the lookup of a project says about the store: the project is recorded when its
  row is found and the comparison of the five fields yields no change; it is new or
  recorded when its row is not found, or is found with no change.
\<close>

definition recorded :: "project_row list \<Rightarrow> project \<Rightarrow> bool" where
  "recorded rows p =
     (case sql_select (bind (list_id p)) rows of
        None \<Rightarrow> False | Some r \<Rightarrow> compare_fields r p = [])"

definition new_or_recorded :: "project_row list \<Rightarrow> project \<Rightarrow> bool" where
  "new_or_recorded rows p =
     (case sql_select (bind (list_id p)) rows of
        None \<Rightarrow> True | Some r \<Rightarrow> compare_fields r p = [])"

section \<open>Sample data\<close>

fun clock :: "nat \<Rightarrow> string" where
  "clock 0 = ''2024-05-01 09:00:00.000000''"
| "clock (Suc 0) = ''2024-05-01 09:00:00.000250''"
| "clock (Suc (Suc 0)) = ''2024-05-01 09:00:00.000500''"
| "clock (Suc (Suc (Suc n))) = ''2024-05-01 09:00:00.000750''"

text \<open>
  An environment in which nothing raises; one whose fourth statement raises for a value
  that is too big, which undoes that statement alone; one whose fourth statement raises
  for a full disk, on which the transaction is rolled back; and one in which the
  database cannot be opened.
\<close>

definition quiet :: env where
  "quiet = \<lparr>now = clock, raises = (\<lambda>n. False), raised = (\<lambda>n. OperationalError),
            rolls_back = (\<lambda>n. False), connect_raises = False, commit_raises = False,
            fetch_projects = Inr [], parse_projects = (\<lambda>h. Inr [])\<rparr>"

definition faulty :: env where
  "faulty = quiet\<lparr>raises := (\<lambda>n. n = Suc (Suc (Suc 0))), raised := (\<lambda>n. DataError)\<rparr>"

definition disk_full :: env where
  "disk_full = quiet\<lparr>raises := (\<lambda>n. n = Suc (Suc (Suc 0))), rolls_back := (\<lambda>n. True)\<rparr>"

definition no_database :: env where
  "no_database = quiet\<lparr>connect_raises := True\<rparr>"

definition house :: project where
  "house = \<lparr>list_id = Some ''a1'', title = ''House'', location = ''X'', budget = ''10k'',
            status = ''Open'', description = ''d''\<rparr>"

definition house_row :: project_row where
  "house_row = \<lparr>row_list_id = Text ''a1'', row_title = ''House'', row_location = ''X'',
                row_budget = ''10k'', row_status = ''Open'', row_description = ''d'',
                row_last_updated = Text ''2024-04-30 09:00:00.000000''\<rparr>"

text \<open>The house with a new budget and a new status, and a second project.\<close>

definition renovated :: project where
  "renovated = house\<lparr>budget := ''20k'', status := ''Closed''\<rparr>"

definition cottage :: project where
  "cottage = \<lparr>list_id = Some ''b2'', title = ''Cottage'', location = ''Y'', budget = ''5k'',
              status = ''Open'', description = ''c''\<rparr>"

definition empty_store :: state where
  "empty_store = \<lparr>file_projects = [], file_changes = [], projects = [], changes = [],
                  ticks = 0, stmts = 0, printed = []\<rparr>"

definition house_store :: state where
  "house_store = empty_store\<lparr>file_projects := [house_row]\<rparr>"

section \<open>Lemmas on the statements and on the batch\<close>

lemmas run_defs =
  save_projects_def for_projects_def process_project_def try_project_def
  execute_select_def execute_def fail_def rollback_def datetime_now_def print_def
  connect_def commit_def
  sql_select_def sql_insert_project_def sql_update_project_def sql_insert_change_def
  bind_def compare_fields_def fields_def existing_at_def project_get_def

lemmas sample_defs =
  quiet_def faulty_def disk_full_def no_database_def house_def house_row_def empty_store_def house_store_def
  renovated_def cottage_def

lemma sql_select_None_insert:
  "sql_select (bind (list_id p)) rows = None \<Longrightarrow>
   sql_insert_project (bind (list_id p)) (title p) (location p) (budget p) (status p)
     (description p) t rows = Inr (rows @ [inserted p t])"
  by (cases "list_id p")
     (auto simp: sql_select_def sql_insert_project_def bind_def inserted_def
        find_None_iff list_ex_iff)

lemma try_project_new:
  assumes "\<not> raises e (stmts s)" and "\<not> raises e (Suc (stmts s))"
    and "sql_select (bind (list_id p)) (projects s) = None"
  shows "try_project e p s =
           (None, s\<lparr>projects := projects s @ [inserted p (Text (now e (ticks s)))],
                    ticks := Suc (ticks s), stmts := Suc (Suc (stmts s)),
                    printed := printed s @ [NewProjectAdded (title p)]\<rparr>)"
  using assms
  by (simp add: try_project_def execute_select_def execute_def datetime_now_def print_def
      sql_select_None_insert)

lemma try_project_same:
  assumes "\<not> raises e (stmts s)"
    and "sql_select (bind (list_id p)) (projects s) = Some r"
    and "compare_fields r p = []"
  shows "try_project e p s =
           (None, s\<lparr>stmts := Suc (stmts s),
                    printed := printed s @ [NoChangesDetected (title p)]\<rparr>)"
  using assms
  by (simp add: try_project_def execute_select_def print_def)

lemma log_changes_step_raise:
  "raises e (stmts s) \<Longrightarrow>
   log_changes e p (c # cs) s =
     (Some (raised e (stmts s)),
      fail e (stmts s) (s\<lparr>ticks := Suc (ticks s), stmts := Suc (stmts s)\<rparr>))"
  by (simp add: datetime_now_def execute_def)

lemma log_changes_step_ok:
  "\<not> raises e (stmts s) \<Longrightarrow>
   log_changes e p (c # cs) s =
     log_changes e p cs
       (s\<lparr>ticks := Suc (ticks s), stmts := Suc (stmts s),
          changes := changes s @ [logged p c (Text (now e (ticks s)))]\<rparr>)"
  by (simp add: datetime_now_def execute_def sql_insert_change_def logged_def)

lemma log_changes_fails:
  "k < length cs \<Longrightarrow> \<forall>i<k. \<not> raises e (stmts s + i) \<Longrightarrow> raises e (stmts s + k) \<Longrightarrow>
   log_changes e p cs s =
     (Some (raised e (stmts s + k)),
      fail e (stmts s + k)
        (s\<lparr>ticks := ticks s + Suc k, stmts := stmts s + Suc k,
           changes := changes s @ logged_rows e p (ticks s) (take k cs)\<rparr>))"
proof (induction cs arbitrary: s k)
  case Nil
  then show ?case by simp
next
  case (Cons c cs)
  show ?case
  proof (cases k)
    case 0
    with Cons.prems(3) have r: "raises e (stmts s)" by simp
    show ?thesis unfolding log_changes_step_raise [OF r] using 0 by simp
  next
    case (Suc j)
    have ok: "\<not> raises e (stmts s)" using Cons.prems(2) Suc by auto
    let ?s2 = "s\<lparr>ticks := Suc (ticks s), stmts := Suc (stmts s),
          changes := changes s @ [logged p c (Text (now e (ticks s)))]\<rparr>"
    have j: "j < length cs" using Cons.prems(1) Suc by simp
    have okj: "\<forall>i<j. \<not> raises e (stmts ?s2 + i)"
    proof (intro allI impI)
      fix i assume "i < j"
      then have "Suc i < k" using Suc by simp
      with Cons.prems(2) have "\<not> raises e (stmts s + Suc i)" by blast
      then show "\<not> raises e (stmts ?s2 + i)" by simp
    qed
    have rj: "raises e (stmts ?s2 + j)" using Cons.prems(3) Suc by simp
    show ?thesis
      unfolding log_changes_step_ok [OF ok] Cons.IH [OF j okj rj] using Suc by simp
  qed
qed

lemma log_changes_all:
  "\<forall>n. \<not> raises e n \<Longrightarrow>
   log_changes e p cs s =
     (None, s\<lparr>ticks := ticks s + length cs, stmts := stmts s + length cs,
              changes := changes s @ logged_rows e p (ticks s) cs\<rparr>)"
proof (induction cs arbitrary: s)
  case Nil
  show ?case by simp
next
  case (Cons c cs)
  have ok: "\<not> raises e (stmts s)" using Cons.prems by simp
  show ?case
    unfolding log_changes_step_ok [OF ok] Cons.IH [OF Cons.prems] by simp
qed

lemma try_project_unfold:
  "try_project e p s =
     (if raises e (stmts s)
      then (Some (raised e (stmts s)), fail e (stmts s) (s\<lparr>stmts := Suc (stmts s)\<rparr>))
      else case sql_select (bind (list_id p)) (projects s) of
             None \<Rightarrow>
               if raises e (Suc (stmts s))
               then (Some (raised e (Suc (stmts s))),
                     fail e (Suc (stmts s))
                       (s\<lparr>ticks := Suc (ticks s), stmts := Suc (Suc (stmts s))\<rparr>))
               else (None, s\<lparr>projects := projects s @ [inserted p (Text (now e (ticks s)))],
                              ticks := Suc (ticks s), stmts := Suc (Suc (stmts s)),
                              printed := printed s @ [NewProjectAdded (title p)]\<rparr>)
           | Some r \<Rightarrow>
               if compare_fields r p = []
               then (None, s\<lparr>stmts := Suc (stmts s),
                              printed := printed s @ [NoChangesDetected (title p)]\<rparr>)
               else if raises e (Suc (stmts s))
               then (Some (raised e (Suc (stmts s))),
                     fail e (Suc (stmts s))
                       (s\<lparr>ticks := Suc (ticks s), stmts := Suc (Suc (stmts s))\<rparr>))
               else (case log_changes e p (compare_fields r p) (updated e p s) of
                       (Some x, s4) \<Rightarrow> (Some x, s4)
                     | (None, s4) \<Rightarrow>
                         (None, print (ProjectUpdated (title p)
                                        (length (compare_fields r p))) s4)))"
proof (cases "raises e (stmts s)")
  case True
  then show ?thesis by (simp add: try_project_def execute_select_def)
next
  case False
  show ?thesis
  proof (cases "sql_select (bind (list_id p)) (projects s)")
    case None
    show ?thesis
    proof (cases "raises e (Suc (stmts s))")
      case True
      with False None show ?thesis
        by (simp add: try_project_def execute_select_def execute_def datetime_now_def)
    next
      case r: False
      from try_project_new [OF False r None] False None r show ?thesis by simp
    qed
  next
    case (Some r)
    show ?thesis
    proof (cases "compare_fields r p = []")
      case True
      from try_project_same [OF False Some True] False Some True show ?thesis by simp
    next
      case ne: False
      have upd: "project_get p (fields ! 0) = title p" "project_get p (fields ! Suc 0) = location p"
        "project_get p (fields ! 2) = budget p" "project_get p (fields ! 3) = status p"
        "project_get p (fields ! 4) = description p"
        by (simp_all add: fields_def project_get_def)
      show ?thesis
        using False Some ne
        by (simp add: try_project_def execute_select_def execute_def datetime_now_def
            updated_def upd Let_def del: log_changes.simps)
    qed
  qed
qed

lemma log_changes_keeps:
  "file_projects (snd (log_changes e p cs s)) = file_projects s \<and>
   file_changes (snd (log_changes e p cs s)) = file_changes s \<and>
   printed (snd (log_changes e p cs s)) = printed s"
proof (induction cs arbitrary: s)
  case Nil
  show ?case by simp
next
  case (Cons c cs)
  show ?case
  proof (cases "raises e (stmts s)")
    case True
    show ?thesis unfolding log_changes_step_raise [OF True] by (simp add: fail_def rollback_def)
  next
    case False
    let ?s2 = "s\<lparr>ticks := Suc (ticks s), stmts := Suc (stmts s),
          changes := changes s @ [logged p c (Text (now e (ticks s)))]\<rparr>"
    from Cons.IH [of ?s2] show ?thesis
      unfolding log_changes_step_ok [OF False] by simp
  qed
qed

lemma try_project_keeps_file:
  "file_projects (snd (try_project e p s)) = file_projects s \<and>
   file_changes (snd (try_project e p s)) = file_changes s"
proof -
  have "file_projects (snd (log_changes e p cs (updated e p s))) = file_projects s \<and>
        file_changes (snd (log_changes e p cs (updated e p s))) = file_changes s" for cs
    by (simp add: log_changes_keeps updated_def)
  then show ?thesis
    unfolding try_project_unfold
    by (simp add: print_def fail_def rollback_def split_beta split: option.split)
qed

lemma process_project_keeps_file:
  "file_projects (process_project e p s) = file_projects s \<and>
   file_changes (process_project e p s) = file_changes s"
  using try_project_keeps_file [of e p s]
  by (simp add: process_project_def print_def split_beta split: option.split)

lemma for_projects_keeps_file:
  "file_projects (for_projects e ps s) = file_projects s \<and>
   file_changes (for_projects e ps s) = file_changes s"
  unfolding for_projects_def
  by (induction ps arbitrary: s) (simp_all add: process_project_keeps_file)

lemma try_project_printed:
  "printed (snd (try_project e p s)) =
     (case fst (try_project e p s) of
        Some x \<Rightarrow> printed s
      | None \<Rightarrow> printed s @ [last (printed (snd (try_project e p s)))])"
proof -
  have "printed (snd (log_changes e p cs (updated e p s))) = printed s" for cs
    by (simp add: log_changes_keeps updated_def)
  then show ?thesis
    unfolding try_project_unfold
    by (simp add: print_def fail_def rollback_def split_beta split: option.split)
qed

lemma process_project_prints_one:
  "length (printed (process_project e p s)) = Suc (length (printed s))"
proof (cases "fst (try_project e p s)")
  case None
  with try_project_printed [of e p s]
  have "printed (snd (try_project e p s)) =
        printed s @ [last (printed (snd (try_project e p s)))]" by simp
  then have "length (printed (snd (try_project e p s))) = Suc (length (printed s))"
    by (metis length_append_singleton)
  with None show ?thesis by (simp add: process_project_def split_beta)
next
  case (Some x)
  with try_project_printed [of e p s] show ?thesis
    by (simp add: process_project_def print_def split_beta)
qed

lemma for_projects_prints_all:
  "length (printed (for_projects e ps s)) = length (printed s) + length ps"
  unfolding for_projects_def
  by (induction ps arbitrary: s) (simp_all add: process_project_prints_one)

lemma process_project_raised:
  "fst (try_project e p s) = Some x \<Longrightarrow>
   process_project e p s = print (ErrorProcessingProject (list_id p) x) (snd (try_project e p s))"
  by (simp add: process_project_def split_beta)

lemma process_project_returned:
  "fst (try_project e p s) = None \<Longrightarrow> process_project e p s = snd (try_project e p s)"
  by (simp add: process_project_def split_beta)

lemma process_project_new:
  assumes "\<not> raises e (stmts s)" and "\<not> raises e (Suc (stmts s))"
    and "sql_select (bind (list_id p)) (projects s) = None"
  shows "process_project e p s =
           s\<lparr>projects := projects s @ [inserted p (Text (now e (ticks s)))],
             ticks := Suc (ticks s), stmts := Suc (Suc (stmts s)),
             printed := printed s @ [NewProjectAdded (title p)]\<rparr>"
  by (simp add: process_project_def try_project_new [OF assms])

lemma process_project_same:
  assumes "\<not> raises e (stmts s)"
    and "sql_select (bind (list_id p)) (projects s) = Some r"
    and "compare_fields r p = []"
  shows "process_project e p s =
           s\<lparr>stmts := Suc (stmts s), printed := printed s @ [NoChangesDetected (title p)]\<rparr>"
  by (simp add: process_project_def try_project_same [OF assms])

lemma process_project_changed:
  assumes "\<forall>n. \<not> raises e n"
    and "sql_select (bind (list_id p)) (projects s) = Some r"
    and "compare_fields r p \<noteq> []"
  shows "process_project e p s =
           (updated e p s)
             \<lparr>ticks := Suc (ticks s) + length (compare_fields r p),
              stmts := Suc (Suc (stmts s)) + length (compare_fields r p),
              changes := changes s @ logged_rows e p (Suc (ticks s)) (compare_fields r p),
              printed := printed s @ [ProjectUpdated (title p) (length (compare_fields r p))]\<rparr>"
  using assms
  by (simp add: process_project_def try_project_unfold log_changes_all print_def updated_def)

lemma sql_select_absent:
  "\<not> list_ex (\<lambda>r. row_list_id r = Text i) rows \<Longrightarrow> sql_select (Text i) rows = None"
  by (simp add: sql_select_def find_None_iff list_ex_iff)

lemma for_projects_append:
  "for_projects e (ps @ qs) s = for_projects e qs (for_projects e ps s)"
  by (simp add: for_projects_def)

lemma for_projects_Cons:
  "for_projects e (p # ps) s = for_projects e ps (process_project e p s)"
  by (simp add: for_projects_def)

lemma scrape_and_save_returns: "fst (scrape_and_save e s) = None"
  by (simp add: scrape_and_save_def datetime_now_def split_beta Let_def
      split: sum.split option.split)

lemma logged_rows_dates:
  "map ch_change_date (logged_rows e p t cs) = map (\<lambda>k. Text (now e k)) [t..<t + length cs]"
proof (induction cs arbitrary: t)
  case Nil
  show ?case by simp
next
  case (Cons c cs)
  have "[t..<t + length (c # cs)] = t # [Suc t..<Suc t + length cs]"
    by (simp add: upt_rec)
  then show ?case by (simp add: Cons.IH logged_def)
qed

lemma connect_keeps_file:
  "file_projects (connect s) = file_projects s \<and> file_changes (connect s) = file_changes s"
  by (simp add: connect_def)

lemma find_append:
  "find P (xs @ ys) = (case find P xs of None \<Rightarrow> find P ys | Some x \<Rightarrow> Some x)"
  by (induction xs) auto

lemma find_append_found:
  "find P xs = Some x \<Longrightarrow> find P (xs @ ys) = Some x"
  by (induction xs) (auto split: if_splits)

lemma find_append_absent:
  "\<forall>y\<in>set ys. \<not> P y \<Longrightarrow> find P (xs @ ys) = find P xs"
  by (induction xs) (auto simp: find_None_iff)

lemma sql_select_append_found:
  "sql_select k rows = Some r \<Longrightarrow> sql_select k (rows @ ext) = Some r"
  by (cases k) (simp_all add: sql_select_def find_append_found)

lemma sql_select_append_other:
  "\<forall>x\<in>set ext. row_list_id x \<noteq> k \<Longrightarrow> sql_select k (rows @ ext) = sql_select k rows"
  by (cases k) (simp_all add: sql_select_def find_append_absent)

lemma recorded_append: "recorded rows p \<Longrightarrow> recorded (rows @ ext) p"
  by (auto simp: recorded_def sql_select_append_found split: option.splits)

lemma new_or_recorded_append:
  "new_or_recorded rows q \<Longrightarrow> \<forall>x\<in>set ext. row_list_id x \<noteq> bind (list_id q) \<Longrightarrow>
   new_or_recorded (rows @ ext) q"
  by (simp add: new_or_recorded_def sql_select_append_other)

lemma compare_fields_inserted: "compare_fields (inserted p t) p = []"
  by (simp add: compare_fields_def inserted_def fields_def existing_at_def project_get_def)

lemma sql_select_inserted:
  "list_id p = Some i \<Longrightarrow> sql_select (bind (list_id p)) rows = None \<Longrightarrow>
   sql_select (bind (list_id p)) (rows @ [inserted p t]) = Some (inserted p t)"
  by (simp add: sql_select_def bind_def inserted_def find_append)

lemma process_project_settles:
  assumes nr: "\<forall>n. \<not> raises e n" and id: "list_id p = Some i"
    and nor: "new_or_recorded (projects s) p"
  shows "changes (process_project e p s) = changes s
       \<and> recorded (projects (process_project e p s)) p
       \<and> (\<exists>ext. projects (process_project e p s) = projects s @ ext
                \<and> (\<forall>x\<in>set ext. row_list_id x = bind (list_id p)))"
proof (cases "sql_select (bind (list_id p)) (projects s)")
  case None
  have r: "\<not> raises e (stmts s)" "\<not> raises e (Suc (stmts s))" using nr by simp_all
  let ?row = "inserted p (Text (now e (ticks s)))"
  have eq: "process_project e p s =
           s\<lparr>projects := projects s @ [?row],
             ticks := Suc (ticks s), stmts := Suc (Suc (stmts s)),
             printed := printed s @ [NewProjectAdded (title p)]\<rparr>"
    by (rule process_project_new [OF r None])
  have "recorded (projects s @ [?row]) p"
    by (simp add: recorded_def sql_select_inserted [OF id None] compare_fields_inserted)
  moreover have "\<forall>x\<in>set [?row]. row_list_id x = bind (list_id p)"
    by (simp add: inserted_def)
  ultimately show ?thesis unfolding eq by auto
next
  case (Some r)
  have c: "compare_fields r p = []" using nor Some by (simp add: new_or_recorded_def)
  have r0: "\<not> raises e (stmts s)" using nr by simp
  have eq: "process_project e p s =
           s\<lparr>stmts := Suc (stmts s), printed := printed s @ [NoChangesDetected (title p)]\<rparr>"
    by (rule process_project_same [OF r0 Some c])
  have "recorded (projects s) p" using Some c by (simp add: recorded_def)
  then show ?thesis unfolding eq by simp
qed

lemma recorded_second_run:
  assumes "\<forall>n. \<not> raises e n"
  shows "\<forall>p\<in>set ps. recorded (projects s) p \<Longrightarrow>
         for_projects e ps s =
           s\<lparr>stmts := stmts s + length ps,
             printed := printed s @ map (\<lambda>p. NoChangesDetected (title p)) ps\<rparr>"
proof (induction ps arbitrary: s)
  case Nil
  show ?case by (simp add: for_projects_def)
next
  case (Cons p ps)
  from Cons.prems obtain r where r: "sql_select (bind (list_id p)) (projects s) = Some r"
    and c: "compare_fields r p = []"
    by (auto simp: recorded_def split: option.splits)
  have r0: "\<not> raises e (stmts s)" using assms by simp
  let ?s1 = "s\<lparr>stmts := Suc (stmts s), printed := printed s @ [NoChangesDetected (title p)]\<rparr>"
  have eq: "process_project e p s = ?s1" by (rule process_project_same [OF r0 r c])
  have "\<forall>q\<in>set ps. recorded (projects ?s1) q" using Cons.prems by simp
  from Cons.IH [OF this] show ?case
    by (simp add: for_projects_Cons eq)
qed

lemma first_run_settles:
  assumes nr: "\<forall>n. \<not> raises e n"
  shows "distinct (map list_id ps) \<Longrightarrow> \<forall>p\<in>set ps. list_id p \<noteq> None \<Longrightarrow>
         \<forall>p\<in>set ps. new_or_recorded (projects s) p \<Longrightarrow>
         changes (for_projects e ps s) = changes s
         \<and> (\<forall>p\<in>set ps. recorded (projects (for_projects e ps s)) p)
         \<and> (\<exists>ext. projects (for_projects e ps s) = projects s @ ext
                  \<and> (\<forall>x\<in>set ext. \<exists>p\<in>set ps. row_list_id x = bind (list_id p)))"
proof (induction ps arbitrary: s)
  case Nil
  show ?case by (simp add: for_projects_def)
next
  case (Cons p ps)
  let ?s1 = "process_project e p s"
  from Cons.prems(2) obtain i where i: "list_id p = Some i" by auto
  from Cons.prems(3) have nor: "new_or_recorded (projects s) p" by simp
  from process_project_settles [OF nr i nor] obtain ext1 where
    ch1: "changes ?s1 = changes s" and rec1: "recorded (projects ?s1) p"
    and pr1: "projects ?s1 = projects s @ ext1"
    and id1: "\<forall>x\<in>set ext1. row_list_id x = bind (list_id p)"
    by blast
  have d: "distinct (map list_id ps)" and nn: "\<forall>q\<in>set ps. list_id q \<noteq> None"
    using Cons.prems(1,2) by simp_all
  have other: "\<forall>q\<in>set ps. new_or_recorded (projects ?s1) q"
  proof
    fix q assume q: "q \<in> set ps"
    have "list_id p \<notin> list_id ` set ps" using Cons.prems(1) by simp
    with q have "list_id q \<noteq> list_id p" by (metis imageI)
    moreover from q nn obtain j where "list_id q = Some j" by auto
    ultimately have "bind (list_id p) \<noteq> bind (list_id q)" using i by (simp add: bind_def)
    with id1 have "\<forall>x\<in>set ext1. row_list_id x \<noteq> bind (list_id q)" by simp
    moreover have "new_or_recorded (projects s) q" using Cons.prems(3) q by simp
    ultimately show "new_or_recorded (projects ?s1) q"
      unfolding pr1 by (simp add: new_or_recorded_append)
  qed
  from Cons.IH [OF d nn other] obtain ext2 where
    ch2: "changes (for_projects e ps ?s1) = changes ?s1"
    and rec2: "\<forall>q\<in>set ps. recorded (projects (for_projects e ps ?s1)) q"
    and pr2: "projects (for_projects e ps ?s1) = projects ?s1 @ ext2"
    and id2: "\<forall>x\<in>set ext2. \<exists>q\<in>set ps. row_list_id x = bind (list_id q)"
    by blast
  have "recorded (projects (for_projects e ps ?s1)) p"
    unfolding pr2 using rec1 by (rule recorded_append)
  moreover have "projects (for_projects e ps ?s1) = projects s @ (ext1 @ ext2)"
    by (simp add: pr2 pr1)
  moreover have "\<forall>x\<in>set (ext1 @ ext2). \<exists>q\<in>set (p # ps). row_list_id x = bind (list_id q)"
    using id1 id2 by auto
  ultimately show ?case
    using ch1 ch2 rec2 by (simp only: for_projects_Cons) auto
qed

lemma process_project_fails_at_insert:
  assumes sel: "sql_select (bind (list_id p)) (projects s) = Some r"
    and k: "k < length (compare_fields r p)"
    and ok: "\<forall>i<k + 2. \<not> raises e (stmts s + i)"
    and bad: "raises e (stmts s + k + 2)"
  shows "process_project e p s =
           print (ErrorProcessingProject (list_id p) (raised e (stmts s + k + 2)))
             (fail e (stmts s + k + 2)
                ((updated e p s)
                   \<lparr>ticks := Suc (ticks s) + Suc k, stmts := Suc (Suc (stmts s)) + Suc k,
                    changes := changes s
                      @ logged_rows e p (Suc (ticks s)) (take k (compare_fields r p))\<rparr>))"
proof -
  let ?cs = "compare_fields r p" and ?u = "updated e p s"
  have st: "stmts ?u = Suc (Suc (stmts s))" "ticks ?u = Suc (ticks s)" "changes ?u = changes s"
    by (simp_all add: updated_def)
  have r0: "\<not> raises e (stmts s)" using ok by (metis add.right_neutral zero_less_numeral trans_less_add2)
  have "\<not> raises e (stmts s + 1)" using ok by (metis one_less_numeral_iff semiring_norm(76) trans_less_add2)
  then have r1: "\<not> raises e (Suc (stmts s))" by simp
  have ne: "?cs \<noteq> []" using k by auto
  have oki: "\<forall>i<k. \<not> raises e (stmts ?u + i)"
  proof (intro allI impI)
    fix i assume "i < k"
    then have "i + 2 < k + 2" by simp
    with ok have "\<not> raises e (stmts s + (i + 2))" by blast
    then show "\<not> raises e (stmts ?u + i)" by (simp add: st)
  qed
  have badk: "raises e (stmts ?u + k)" using bad by (simp add: st add.commute)
  have n: "stmts ?u + k = stmts s + k + 2" by (simp add: st)
  have "try_project e p s =
      (Some (raised e (stmts s + k + 2)),
       fail e (stmts s + k + 2)
         (?u\<lparr>ticks := ticks ?u + Suc k, stmts := stmts ?u + Suc k,
             changes := changes ?u @ logged_rows e p (ticks ?u) (take k ?cs)\<rparr>))"
    unfolding try_project_unfold
    using r0 r1 sel ne by (simp add: log_changes_fails [OF k oki badk] n)
  then show ?thesis by (simp add: process_project_def st)
qed

lemma log_changes_grows:
  "\<forall>n\<ge>stmts s. raises e n \<longrightarrow> \<not> rolls_back e n \<Longrightarrow>
   stmts s \<le> stmts (snd (log_changes e p cs s))
   \<and> (\<exists>rest. changes (snd (log_changes e p cs s)) = changes s @ rest)"
proof (induction cs arbitrary: s)
  case Nil
  show ?case by simp
next
  case (Cons c cs)
  show ?case
  proof (cases "raises e (stmts s)")
    case True
    with Cons.prems have "\<not> rolls_back e (stmts s)" by simp
    then show ?thesis unfolding log_changes_step_raise [OF True] by (simp add: fail_def)
  next
    case False
    let ?s2 = "s\<lparr>ticks := Suc (ticks s), stmts := Suc (stmts s),
          changes := changes s @ [logged p c (Text (now e (ticks s)))]\<rparr>"
    have "\<forall>n\<ge>stmts ?s2. raises e n \<longrightarrow> \<not> rolls_back e n" using Cons.prems by simp
    from Cons.IH [OF this] obtain rest where
      "stmts ?s2 \<le> stmts (snd (log_changes e p cs ?s2))"
      "changes (snd (log_changes e p cs ?s2)) = changes ?s2 @ rest" by blast
    then have "stmts s \<le> stmts (snd (log_changes e p cs ?s2))"
      and "changes (snd (log_changes e p cs ?s2)) =
             changes s @ (logged p c (Text (now e (ticks s))) # rest)"
      by simp_all
    then show ?thesis unfolding log_changes_step_ok [OF False] by blast
  qed
qed

lemma process_project_grows:
  assumes "\<forall>n\<ge>stmts s. raises e n \<longrightarrow> \<not> rolls_back e n"
  shows "stmts s \<le> stmts (process_project e p s)
       \<and> (\<exists>rest. changes (process_project e p s) = changes s @ rest)"
proof -
  have a0: "\<not> (raises e (stmts s) \<and> rolls_back e (stmts s))"
    and a1: "\<not> (raises e (Suc (stmts s)) \<and> rolls_back e (Suc (stmts s)))"
    using assms by simp_all
  have "\<forall>n\<ge>stmts (updated e p s). raises e n \<longrightarrow> \<not> rolls_back e n"
    using assms by (simp add: updated_def)
  from log_changes_grows [OF this]
  have u: "stmts s \<le> stmts (snd (log_changes e p cs (updated e p s)))
       \<and> (\<exists>rest. changes (snd (log_changes e p cs (updated e p s))) = changes s @ rest)" for cs
    by (simp add: updated_def) (metis Suc_leD)
  show ?thesis
    unfolding process_project_def try_project_unfold
    using a0 a1 u
    by (auto simp: print_def fail_def split_beta split: option.split)
qed

lemma for_projects_grows:
  "\<forall>n\<ge>stmts s. raises e n \<longrightarrow> \<not> rolls_back e n \<Longrightarrow>
   stmts s \<le> stmts (for_projects e ps s)
   \<and> (\<exists>rest. changes (for_projects e ps s) = changes s @ rest)"
proof (induction ps arbitrary: s)
  case Nil
  show ?case by (simp add: for_projects_def)
next
  case (Cons p ps)
  let ?s1 = "process_project e p s"
  from process_project_grows [OF Cons.prems] obtain r1 where
    m: "stmts s \<le> stmts ?s1" and c: "changes ?s1 = changes s @ r1" by blast
  have "\<forall>n\<ge>stmts ?s1. raises e n \<longrightarrow> \<not> rolls_back e n" using Cons.prems m by simp
  from Cons.IH [OF this] obtain r2 where
    "stmts ?s1 \<le> stmts (for_projects e ps ?s1)"
    "changes (for_projects e ps ?s1) = changes ?s1 @ r2" by blast
  with m c have "stmts s \<le> stmts (for_projects e (p # ps) s)"
    and "changes (for_projects e (p # ps) s) = changes s @ (r1 @ r2)"
    by (simp_all add: for_projects_Cons)
  then show ?case by blast
qed

lemma log_changes_statements:
  "stmts s \<le> stmts (snd (log_changes e p cs s))
   \<and> (\<forall>x. fst (log_changes e p cs s) = Some x \<longrightarrow>
          stmts s < stmts (snd (log_changes e p cs s))
          \<and> raises e (stmts (snd (log_changes e p cs s)) - 1)
          \<and> x = raised e (stmts (snd (log_changes e p cs s)) - 1))
   \<and> (fst (log_changes e p cs s) = None \<longrightarrow>
          (\<forall>n. stmts s \<le> n \<and> n < stmts (snd (log_changes e p cs s)) \<longrightarrow> \<not> raises e n))"
proof (induction cs arbitrary: s)
  case Nil
  show ?case by auto
next
  case (Cons c cs)
  show ?case
  proof (cases "raises e (stmts s)")
    case True
    then show ?thesis
      unfolding log_changes_step_raise [OF True] by (simp add: fail_def rollback_def)
  next
    case False
    let ?s2 = "s\<lparr>ticks := Suc (ticks s), stmts := Suc (stmts s),
          changes := changes s @ [logged p c (Text (now e (ticks s)))]\<rparr>"
    let ?t = "log_changes e p cs ?s2"
    from Cons.IH [of ?s2] have
      m: "Suc (stmts s) \<le> stmts (snd ?t)"
      and r: "\<forall>x. fst ?t = Some x \<longrightarrow>
          raises e (stmts (snd ?t) - 1) \<and> x = raised e (stmts (snd ?t) - 1)"
      and q: "fst ?t = None \<longrightarrow>
          (\<forall>n. Suc (stmts s) \<le> n \<and> n < stmts (snd ?t) \<longrightarrow> \<not> raises e n)"
      by simp_all
    have q': "fst ?t = None \<longrightarrow> (\<forall>n. stmts s \<le> n \<and> n < stmts (snd ?t) \<longrightarrow> \<not> raises e n)"
    proof (intro impI allI)
      fix n assume a: "fst ?t = None" and b: "stmts s \<le> n \<and> n < stmts (snd ?t)"
      show "\<not> raises e n"
      proof (cases "n = stmts s")
        case True
        with False show ?thesis by simp
      next
        case ne: False
        with b have "Suc (stmts s) \<le> n" by simp
        with q a b show ?thesis by blast
      qed
    qed
    from m r q' show ?thesis
      unfolding log_changes_step_ok [OF False] by auto
  qed
qed

lemma try_project_statements:
  "Suc (stmts s) \<le> stmts (snd (try_project e p s))
   \<and> (\<forall>x. fst (try_project e p s) = Some x \<longrightarrow>
          raises e (stmts (snd (try_project e p s)) - 1)
          \<and> x = raised e (stmts (snd (try_project e p s)) - 1))
   \<and> (fst (try_project e p s) = None \<longrightarrow>
          (\<forall>n. stmts s \<le> n \<and> n < stmts (snd (try_project e p s)) \<longrightarrow> \<not> raises e n))"
proof -
  let ?u = "updated e p s"
  have two: "\<not> raises e (stmts s) \<Longrightarrow> \<not> raises e (Suc (stmts s)) \<Longrightarrow>
      \<forall>n. stmts s \<le> n \<and> n < Suc (Suc (stmts s)) \<longrightarrow> \<not> raises e n"
    by (metis le_antisym less_Suc_eq_le not_less_eq_eq)
  have one: "\<not> raises e (stmts s) \<Longrightarrow>
      \<forall>n. stmts s \<le> n \<and> n < Suc (stmts s) \<longrightarrow> \<not> raises e n"
    by (metis le_antisym less_Suc_eq_le)
  have su: "stmts ?u = Suc (Suc (stmts s))" by (simp add: updated_def)
  have l: "Suc (Suc (stmts s)) \<le> stmts (snd (log_changes e p cs ?u))
      \<and> (\<forall>x. fst (log_changes e p cs ?u) = Some x \<longrightarrow>
          raises e (stmts (snd (log_changes e p cs ?u)) - 1)
          \<and> x = raised e (stmts (snd (log_changes e p cs ?u)) - 1))
      \<and> (fst (log_changes e p cs ?u) = None \<longrightarrow>
          (\<forall>n. Suc (Suc (stmts s)) \<le> n \<and> n < stmts (snd (log_changes e p cs ?u))
                \<longrightarrow> \<not> raises e n))" for cs
    using log_changes_statements [of ?u e p cs] by (simp add: su)
  have l3: "\<not> raises e (stmts s) \<Longrightarrow> \<not> raises e (Suc (stmts s)) \<Longrightarrow>
      fst (log_changes e p cs ?u) = None \<Longrightarrow>
      \<forall>n. stmts s \<le> n \<and> n < stmts (snd (log_changes e p cs ?u)) \<longrightarrow> \<not> raises e n" for cs
  proof (intro allI impI)
    fix n
    assume a: "\<not> raises e (stmts s)" "\<not> raises e (Suc (stmts s))"
      "fst (log_changes e p cs ?u) = None"
      and b: "stmts s \<le> n \<and> n < stmts (snd (log_changes e p cs ?u))"
    show "\<not> raises e n"
    proof (cases "n < Suc (Suc (stmts s))")
      case True
      with two [OF a(1,2)] b show ?thesis by blast
    next
      case False
      then have "Suc (Suc (stmts s)) \<le> n" by simp
      with l [of cs] a(3) b show ?thesis by blast
    qed
  qed
  show ?thesis
  proof (cases "raises e (stmts s)")
    case True
    then show ?thesis unfolding try_project_unfold by (simp add: fail_def rollback_def)
  next
    case r0: False
    show ?thesis
    proof (cases "sql_select (bind (list_id p)) (projects s)")
      case None
      show ?thesis
      proof (cases "raises e (Suc (stmts s))")
        case True
        with r0 None show ?thesis
          unfolding try_project_unfold by (simp add: fail_def rollback_def)
      next
        case False
        with r0 None two [OF r0 False] show ?thesis
          unfolding try_project_unfold by simp
      qed
    next
      case (Some r)
      show ?thesis
      proof (cases "compare_fields r p = []")
        case True
        with r0 Some one [OF r0] show ?thesis unfolding try_project_unfold by simp
      next
        case ne: False
        show ?thesis
        proof (cases "raises e (Suc (stmts s))")
          case True
          with r0 Some ne show ?thesis
            unfolding try_project_unfold by (simp add: fail_def rollback_def)
        next
          case False
          let ?t = "log_changes e p (compare_fields r p) ?u"
          have eq: "try_project e p s =
              (case ?t of (Some x, s4) \<Rightarrow> (Some x, s4)
               | (None, s4) \<Rightarrow>
                   (None, print (ProjectUpdated (title p) (length (compare_fields r p))) s4))"
            unfolding try_project_unfold using r0 Some ne False by simp
          show ?thesis
          proof (cases "fst ?t")
            case None
            then have "try_project e p s =
                (None, print (ProjectUpdated (title p) (length (compare_fields r p))) (snd ?t))"
              unfolding eq by (simp add: split_beta)
            with l [of "compare_fields r p"] l3 [OF r0 False None] None show ?thesis
              by (simp add: print_def)
          next
            case (Some x)
            then have "try_project e p s = (Some x, snd ?t)"
              unfolding eq by (simp add: split_beta)
            with l [of "compare_fields r p"] Some show ?thesis by simp
          qed
        qed
      qed
    qed
  qed
qed

lemma process_project_statements:
  "Suc (stmts s) \<le> stmts (process_project e p s)"
  using try_project_statements [of s e p]
  by (simp add: process_project_def print_def split_beta split: option.split)

lemma for_projects_statements:
  "stmts s + length ps \<le> stmts (for_projects e ps s)"
proof (induction ps arbitrary: s)
  case Nil
  show ?case by (simp add: for_projects_def)
next
  case (Cons p ps)
  from Cons.IH [of "process_project e p s"] process_project_statements [of s e p]
  show ?case by (simp add: for_projects_Cons)
qed

lemma process_project_reports_failure:
  assumes "stmts s \<le> n" and "n < stmts (process_project e p s)" and "raises e n"
  shows "printed (process_project e p s) =
           printed s @ [ErrorProcessingProject (list_id p)
                          (raised e (stmts (process_project e p s) - 1))]"
proof (cases "fst (try_project e p s)")
  case None
  then have "process_project e p s = snd (try_project e p s)"
    by (rule process_project_returned)
  with try_project_statements [of s e p] None assms show ?thesis by auto
next
  case (Some x)
  from try_project_statements [of s e p] Some
  have x: "x = raised e (stmts (snd (try_project e p s)) - 1)" by blast
  have pr: "printed (snd (try_project e p s)) = printed s"
    using try_project_printed [of e p s] Some by simp
  have "process_project e p s =
          print (ErrorProcessingProject (list_id p) x) (snd (try_project e p s))"
    using Some by (rule process_project_raised)
  then show ?thesis using x pr by (simp add: print_def)
qed

lemma run_pending_returns: "fst (run_pending es s) = None"
  by (induction es arbitrary: s) (simp_all add: split_beta scrape_and_save_returns split: option.split)

lemma main_block_ends_with_setup:
  "fst (main_block e es s) = fst (setup_database e s)"
  by (simp add: main_block_def split_beta scrape_and_save_returns run_pending_returns
      split: option.split)

lemma setup_database_raises:
  "fst (setup_database e s) =
     (if connect_raises e then Some OperationalError
      else if raises e (stmts s) then Some (raised e (stmts s))
      else if raises e (Suc (stmts s)) then Some (raised e (Suc (stmts s)))
      else if commit_raises e then Some OperationalError else None)"
  by (simp add: setup_database_def execute_def connect_def)

lemma second_run_of_settled_batch:
  assumes "\<forall>n. \<not> raises e n" and "\<not> connect_raises e" and "\<not> commit_raises e"
    and "distinct (map list_id ps)" and "\<forall>p\<in>set ps. list_id p \<noteq> None"
    and "\<forall>p\<in>set ps. new_or_recorded (file_projects s) p"
  shows "file_projects (snd (save_projects e ps (snd (save_projects e ps s)))) =
           file_projects (snd (save_projects e ps s))
       \<and> file_changes (snd (save_projects e ps (snd (save_projects e ps s)))) =
           file_changes (snd (save_projects e ps s))
       \<and> printed (snd (save_projects e ps (snd (save_projects e ps s)))) =
           printed (snd (save_projects e ps s)) @ map (\<lambda>p. NoChangesDetected (title p)) ps"
proof -
  let ?s1 = "for_projects e ps (connect s)"
  have run1: "snd (save_projects e ps s) = commit ?s1"
    using assms(2,3) by (simp add: save_projects_def Let_def)
  have "\<forall>p\<in>set ps. new_or_recorded (projects (connect s)) p"
    using assms(6) by (simp add: connect_def)
  from first_run_settles [OF assms(1,4,5) this]
  have rec: "\<forall>p\<in>set ps. recorded (projects ?s1) p" by blast
  let ?s2 = "connect (commit ?s1)"
  have view: "projects ?s2 = projects ?s1" "changes ?s2 = changes ?s1"
    "printed ?s2 = printed ?s1"
    by (simp_all add: connect_def commit_def)
  have "\<forall>p\<in>set ps. recorded (projects ?s2) p" using rec by (simp add: view)
  from recorded_second_run [OF assms(1) this]
  have loop2: "for_projects e ps ?s2 =
      ?s2\<lparr>stmts := stmts ?s2 + length ps,
          printed := printed ?s2 @ map (\<lambda>p. NoChangesDetected (title p)) ps\<rparr>" .
  have run2: "snd (save_projects e ps (commit ?s1)) = commit (for_projects e ps ?s2)"
    using assms(2,3) by (simp add: save_projects_def Let_def)
  show ?thesis
    unfolding run1 run2 loop2 by (simp add: commit_def connect_def)
qed

section \<open>The claims\<close>

text \<open>
  C3 (diff completeness: k differing fields give k change entries and one snapshot
  update). The stored row of \<open>a1\<close> has status \<open>Open\<close> and the incoming record has
  status \<open>Closed\<close>, so one field differs. The run logs the one change entry, with
  the stored and the incoming value, and prints one update; but the row of \<open>a1\<close> in
  the file is the old one, its status still \<open>Open\<close>: the \<open>UPDATE\<close> is bound with
  \<open>list_id\<close> in the place of \<open>last_updated\<close> and the clock reading in the place of
  the key, so it selects no row.
\<close>

theorem update_leaves_snapshot_unchanged:
  "save_projects quiet [house\<lparr>status := ''Closed''\<rparr>] house_store =
     (None, house_store
        \<lparr>file_changes := [\<lparr>ch_list_id = Text ''a1'', ch_field_name = ''status'',
                           ch_old_value = ''Open'', ch_new_value = ''Closed'',
                           ch_change_date = Text (clock 1)\<rparr>],
         projects := [house_row],
         changes := [\<lparr>ch_list_id = Text ''a1'', ch_field_name = ''status'',
                      ch_old_value = ''Open'', ch_new_value = ''Closed'',
                      ch_change_date = Text (clock 1)\<rparr>],
         ticks := 2, stmts := 3, printed := [ProjectUpdated ''House'' 1]\<rparr>)"
  by (simp add: run_defs sample_defs)

text \<open>
  C5 (one snapshot row per id, reflecting the most recent accepted record). Two cycles
  on an empty store: the first sights \<open>a1\<close> with status \<open>Open\<close>, the second with
  status \<open>Closed\<close>. The file then holds one row for \<open>a1\<close>, and its status is
  \<open>Open\<close>, the value of the first record, not of the most recent one.
\<close>

theorem snapshot_keeps_first_sighting:
  "file_projects (snd (save_projects quiet [house\<lparr>status := ''Closed''\<rparr>]
                        (snd (save_projects quiet [house] empty_store)))) =
     [\<lparr>row_list_id = Text ''a1'', row_title = ''House'', row_location = ''X'',
       row_budget = ''10k'', row_status = ''Open'', row_description = ''d'',
       row_last_updated = Text (clock 0)\<rparr>]"
  by (simp add: run_defs sample_defs)

text \<open>
  C9 (the same id twice in one batch: last write wins). On an empty store the batch
  holds \<open>a1\<close> with status \<open>Open\<close> and then \<open>a1\<close> with status \<open>Closed\<close>. The
  second occurrence is diffed against the row the first one inserted (one change,
  \<open>Open\<close> to \<open>Closed\<close>, is logged and an update is printed), but the stored row
  after the batch is that of the first occurrence.
\<close>

theorem duplicate_id_first_write_stays:
  "save_projects quiet [house, house\<lparr>status := ''Closed''\<rparr>] empty_store =
     (None, empty_store
        \<lparr>file_projects := [inserted house (Text (clock 0))],
         file_changes := [logged (house\<lparr>status := ''Closed''\<rparr>)
                            \<lparr>field_name = ''status'', old_value = ''Open'',
                             new_value = ''Closed''\<rparr> (Text (clock 2))],
         projects := [inserted house (Text (clock 0))],
         changes := [logged (house\<lparr>status := ''Closed''\<rparr>)
                       \<lparr>field_name = ''status'', old_value = ''Open'',
                        new_value = ''Closed''\<rparr> (Text (clock 2))],
         ticks := 3, stmts := 5,
         printed := [NewProjectAdded ''House'', ProjectUpdated ''House'' 1]\<rparr>)"
  by (simp add: run_defs sample_defs inserted_def logged_def numeral_2_eq_2 numeral_3_eq_3)

text \<open>
  C8 (a record whose id is new to the store). When no row of \<open>projects\<close> has the
  id of the record and neither the \<open>SELECT\<close> nor the \<open>INSERT\<close> raises, processing
  the record appends exactly one row, which holds the id and the five fields of the
  record, leaves table \<open>changes\<close> as it was, and prints the line for a new project.
\<close>

theorem new_id_inserts_one_row:
  assumes "list_id p = Some i"
    and "\<not> list_ex (\<lambda>r. row_list_id r = Text i) (projects s)"
    and "\<not> raises e (stmts s)" and "\<not> raises e (Suc (stmts s))"
  shows "projects (process_project e p s) =
           projects s @ [\<lparr>row_list_id = Text i, row_title = title p,
                           row_location = location p, row_budget = budget p,
                           row_status = status p, row_description = description p,
                           row_last_updated = Text (now e (ticks s))\<rparr>]
       \<and> changes (process_project e p s) = changes s
       \<and> printed (process_project e p s) = printed s @ [NewProjectAdded (title p)]"
proof -
  have "sql_select (bind (list_id p)) (projects s) = None"
    using assms(1,2) by (simp add: bind_def sql_select_absent)
  from process_project_new [OF assms(3,4) this] assms(1)
  show ?thesis by (simp add: inserted_def bind_def)
qed

theorem new_id_inserts_one_row_witness:
  "list_id house = Some ''a1''
   \<and> \<not> list_ex (\<lambda>r. row_list_id r = Text ''a1'') (projects empty_store)
   \<and> \<not> raises quiet (stmts empty_store) \<and> \<not> raises quiet (Suc (stmts empty_store))
   \<and> projects (process_project quiet house empty_store) =
        [\<lparr>row_list_id = Text ''a1'', row_title = ''House'', row_location = ''X'',
          row_budget = ''10k'', row_status = ''Open'', row_description = ''d'',
          row_last_updated = Text (clock 0)\<rparr>]
   \<and> changes (process_project quiet house empty_store) = []
   \<and> printed (process_project quiet house empty_store) = [NewProjectAdded ''House'']"
proof -
  have h: "list_id house = Some ''a1''"
    "\<not> list_ex (\<lambda>r. row_list_id r = Text ''a1'') (projects empty_store)"
    "\<not> raises quiet (stmts empty_store)" "\<not> raises quiet (Suc (stmts empty_store))"
    by (simp_all add: sample_defs)
  from new_id_inserts_one_row [OF h] h show ?thesis
    by (simp add: sample_defs)
qed

text \<open>
  C6, as stated (every timestamp written for a record is the \<open>observed_at\<close> of its
  batch). A record has no \<open>observed_at\<close>: each write reads the clock itself. The two
  change entries written for one record, on a clock whose readings differ, carry two
  different dates, so they cannot both carry one timestamp of the record.
\<close>

theorem change_dates_differ:
  "map ch_change_date (file_changes (snd (save_projects quiet [renovated] house_store))) =
     [Text ''2024-05-01 09:00:00.000250'', Text ''2024-05-01 09:00:00.000500'']"
  by (simp add: run_defs sample_defs)

text \<open>
  C6, amended. When no statement raises, every timestamp written for a record is a
  reading of the clock taken for that write: the row of a new project carries the
  reading taken for its \<open>INSERT\<close>, and the change entries of an existing project carry,
  in order, the readings that follow the one taken for the \<open>UPDATE\<close>.
\<close>

theorem timestamps_are_clock_readings:
  assumes "\<forall>n. \<not> raises e n"
  shows "(sql_select (bind (list_id p)) (projects s) = None \<longrightarrow>
            projects (process_project e p s) =
              projects s @ [inserted p (Text (now e (ticks s)))])
       \<and> (\<forall>r. sql_select (bind (list_id p)) (projects s) = Some r \<longrightarrow>
            (\<exists>new. changes (process_project e p s) = changes s @ new
               \<and> map ch_change_date new =
                   map (\<lambda>k. Text (now e k))
                     [Suc (ticks s)..<Suc (ticks s) + length (compare_fields r p)]))"
proof (intro conjI impI allI)
  assume "sql_select (bind (list_id p)) (projects s) = None"
  moreover have "\<not> raises e (stmts s)" "\<not> raises e (Suc (stmts s))" using assms by simp_all
  ultimately show "projects (process_project e p s) =
      projects s @ [inserted p (Text (now e (ticks s)))]"
    by (simp add: process_project_new)
next
  fix r
  assume r: "sql_select (bind (list_id p)) (projects s) = Some r"
  have "changes (process_project e p s) =
          changes s @ logged_rows e p (Suc (ticks s)) (compare_fields r p)"
  proof (cases "compare_fields r p = []")
    case True
    have "\<not> raises e (stmts s)" using assms by simp
    from process_project_same [OF this r True] True show ?thesis by simp
  next
    case False
    show ?thesis by (simp add: process_project_changed [OF assms r False])
  qed
  then show "\<exists>new. changes (process_project e p s) = changes s @ new
               \<and> map ch_change_date new =
                   map (\<lambda>k. Text (now e k))
                     [Suc (ticks s)..<Suc (ticks s) + length (compare_fields r p)]"
    using logged_rows_dates by blast
qed

theorem timestamps_are_clock_readings_witness:
  "(\<forall>n. \<not> raises quiet n)
   \<and> sql_select (bind (list_id renovated)) (projects (connect house_store)) = Some house_row
   \<and> (\<exists>new. changes (process_project quiet renovated (connect house_store)) =
               changes (connect house_store) @ new
             \<and> map ch_change_date new = [Text (clock 1), Text (clock 2)])"
proof -
  have h: "\<forall>n. \<not> raises quiet n" by (simp add: quiet_def)
  have r: "sql_select (bind (list_id renovated)) (projects (connect house_store)) = Some house_row"
    by (simp add: sample_defs connect_def bind_def sql_select_def)
  have n: "[Suc (ticks (connect house_store))..<Suc (ticks (connect house_store))
             + length (compare_fields house_row renovated)] = [1, 2]"
    by (simp add: sample_defs connect_def compare_fields_def fields_def
        existing_at_def project_get_def upt_rec)
  have q: "now quiet = clock" by (simp add: quiet_def)
  from timestamps_are_clock_readings [OF h, of renovated "connect house_store"] r
  have "\<exists>new. changes (process_project quiet renovated (connect house_store)) =
               changes (connect house_store) @ new
             \<and> map ch_change_date new =
                 map (\<lambda>k. Text (now quiet k))
                   [Suc (ticks (connect house_store))..<Suc (ticks (connect house_store))
                      + length (compare_fields house_row renovated)]"
    by blast
  then have "\<exists>new. changes (process_project quiet renovated (connect house_store)) =
               changes (connect house_store) @ new
             \<and> map ch_change_date new = [Text (clock 1), Text (clock 2)]"
    by (simp only: n q list.map)
  with h r show ?thesis by blast
qed

text \<open>
  C2, as stated (a record without an id is skipped and nothing is written for it). The
  record of the batch has \<open>list_id = None\<close>; the run stores a row for it, with a
  \<open>NULL\<close> key, and prints the line for a new project.
\<close>

theorem missing_id_is_stored:
  "file_projects (snd (save_projects quiet [house\<lparr>list_id := None\<rparr>] empty_store)) =
     [\<lparr>row_list_id = Null, row_title = ''House'', row_location = ''X'',
       row_budget = ''10k'', row_status = ''Open'', row_description = ''d'',
       row_last_updated = Text ''2024-05-01 09:00:00.000000''\<rparr>]
   \<and> printed (snd (save_projects quiet [house\<lparr>list_id := None\<rparr>] empty_store)) =
       [NewProjectAdded ''House'']"
  by (simp add: run_defs sample_defs)

text \<open>
  C2, amended. A record whose id is absent is never found in the store, and a record
  whose id is the empty string is looked up like any other id; when it is not found and
  neither statement raises, it is inserted as a new row (with a \<open>NULL\<close> key, or the
  key \<open>''\<close>), table \<open>changes\<close> is left as it was, the line for a new project is
  printed, and the loop goes on with the remaining records of the batch.
\<close>

theorem missing_id_is_inserted:
  assumes "list_id p = None
           \<or> (list_id p = Some [] \<and> \<not> list_ex (\<lambda>r. row_list_id r = Text []) (projects s))"
    and "\<not> raises e (stmts s)" and "\<not> raises e (Suc (stmts s))"
  shows "projects (process_project e p s) =
           projects s @ [inserted p (Text (now e (ticks s)))]
       \<and> changes (process_project e p s) = changes s
       \<and> printed (process_project e p s) = printed s @ [NewProjectAdded (title p)]
       \<and> for_projects e (p # ps) s = for_projects e ps (process_project e p s)"
proof -
  have "sql_select (bind (list_id p)) (projects s) = None"
    using assms(1) by (auto simp: bind_def sql_select_absent) (simp add: sql_select_def)
  from process_project_new [OF assms(2,3) this]
  show ?thesis by (simp add: for_projects_Cons)
qed

theorem missing_id_is_inserted_witness:
  "list_id (house\<lparr>list_id := None\<rparr>) = None
   \<and> \<not> raises quiet (stmts empty_store) \<and> \<not> raises quiet (Suc (stmts empty_store))
   \<and> projects (process_project quiet (house\<lparr>list_id := None\<rparr>) empty_store) =
       [inserted (house\<lparr>list_id := None\<rparr>) (Text (clock 0))]
   \<and> row_list_id (inserted (house\<lparr>list_id := None\<rparr>) (Text (clock 0))) = Null
   \<and> printed (process_project quiet (house\<lparr>list_id := None\<rparr>) empty_store) =
       [NewProjectAdded ''House'']
   \<and> for_projects quiet [house\<lparr>list_id := None\<rparr>, cottage] empty_store =
       for_projects quiet [cottage]
         (process_project quiet (house\<lparr>list_id := None\<rparr>) empty_store)"
proof -
  have h: "list_id (house\<lparr>list_id := None\<rparr>) = None
           \<or> (list_id (house\<lparr>list_id := None\<rparr>) = Some []
              \<and> \<not> list_ex (\<lambda>r. row_list_id r = Text []) (projects empty_store))"
    "\<not> raises quiet (stmts empty_store)" "\<not> raises quiet (Suc (stmts empty_store))"
    by (simp_all add: sample_defs)
  have v: "projects empty_store = []" "printed empty_store = []" "ticks empty_store = 0"
    "now quiet = clock" "title (house\<lparr>list_id := None\<rparr>) = ''House''"
    by (simp_all add: sample_defs)
  from missing_id_is_inserted [OF h, of "[cottage]"] h(2,3) show ?thesis
    by (simp add: v inserted_def bind_def)
qed

text \<open>
  C7, as stated (no error of any kind ends the process). The process starts with
  \<open>setup_database()\<close>, which is called outside any \<open>try\<close>: when the database cannot
  be opened, the exception comes out of the main block and the process ends before its
  first cycle.
\<close>

theorem setup_failure_ends_process:
  "fst (main_block no_database [] empty_store) = Some OperationalError"
  by (simp add: main_block_def setup_database_def sample_defs)

text \<open>
  C7, amended. Inside a cycle every failure is caught. When a statement that a record
  executes raises, the record prints its error line, with the record's id and the
  exception of the statement, which is the last one the record executed. The records
  that follow any processed part of the batch each execute at least one statement and
  print exactly one line. \<open>scrape_and_save\<close> and the scheduled runs never end with an
  exception, whatever the fetch, the parser, the connection, the statements and the
  commit do. The main block ends with an exception exactly when \<open>setup_database\<close>
  does: when its connect, one of its two statements or its commit raises.
\<close>

theorem failures_inside_cycle_are_caught:
  "((\<exists>n. stmts s \<le> n \<and> n < stmts (process_project e p s) \<and> raises e n) \<longrightarrow>
      printed (process_project e p s) =
        printed s @ [ErrorProcessingProject (list_id p)
                       (raised e (stmts (process_project e p s) - 1))])
   \<and> stmts (for_projects e ps s) + length qs \<le> stmts (for_projects e (ps @ qs) s)
   \<and> length (printed (for_projects e (ps @ qs) s)) =
       length (printed (for_projects e ps s)) + length qs
   \<and> fst (scrape_and_save e s) = None
   \<and> fst (run_pending es s) = None
   \<and> fst (main_block e es s) =
       (if connect_raises e then Some OperationalError
        else if raises e (stmts s) then Some (raised e (stmts s))
        else if raises e (Suc (stmts s)) then Some (raised e (Suc (stmts s)))
        else if commit_raises e then Some OperationalError else None)"
proof -
  have a: "(\<exists>n. stmts s \<le> n \<and> n < stmts (process_project e p s) \<and> raises e n) \<longrightarrow>
      printed (process_project e p s) =
        printed s @ [ErrorProcessingProject (list_id p)
                       (raised e (stmts (process_project e p s) - 1))]"
    using process_project_reports_failure [of s _ e p] by blast
  have b: "stmts (for_projects e ps s) + length qs \<le> stmts (for_projects e (ps @ qs) s)"
    by (simp add: for_projects_append for_projects_statements)
  have c: "length (printed (for_projects e (ps @ qs) s)) =
       length (printed (for_projects e ps s)) + length qs"
    by (simp add: for_projects_append for_projects_prints_all)
  have d: "fst (main_block e es s) =
       (if connect_raises e then Some OperationalError
        else if raises e (stmts s) then Some (raised e (stmts s))
        else if raises e (Suc (stmts s)) then Some (raised e (Suc (stmts s)))
        else if commit_raises e then Some OperationalError else None)"
    unfolding main_block_ends_with_setup by (rule setup_database_raises)
  from a b c d scrape_and_save_returns [of e s] run_pending_returns [of es s]
  show ?thesis by blast
qed

theorem failures_inside_cycle_are_caught_witness:
  "stmts (connect house_store) \<le> 3
   \<and> 3 < stmts (process_project faulty renovated (connect house_store))
   \<and> raises faulty 3
   \<and> printed (process_project faulty renovated (connect house_store)) =
       [ErrorProcessingProject (Some ''a1'') DataError]"
proof -
  let ?s = "connect house_store"
  have v: "stmts (process_project faulty renovated ?s) = 4"
    by (simp add: run_defs sample_defs)
  have h: "stmts ?s \<le> 3" "3 < stmts (process_project faulty renovated ?s)"
    "raises faulty 3"
    unfolding v by (simp_all add: connect_def sample_defs)
  then have ex: "\<exists>n. stmts ?s \<le> n \<and> n < stmts (process_project faulty renovated ?s)
      \<and> raises faulty n" by blast
  have w: "printed ?s = []" "list_id renovated = Some ''a1''" "raised faulty 3 = DataError"
    by (simp_all add: connect_def sample_defs)
  from failures_inside_cycle_are_caught
    [where s = ?s and e = faulty and p = renovated, THEN conjunct1] ex
  have "printed (process_project faulty renovated ?s) =
        printed ?s @ [ErrorProcessingProject (list_id renovated)
                        (raised faulty (stmts (process_project faulty renovated ?s) - 1))]"
    by blast
  then have "printed (process_project faulty renovated ?s) =
        [ErrorProcessingProject (Some ''a1'') DataError]"
    unfolding v w by (simp add: w)
  with h show ?thesis by blast
qed



text \<open>
  C1, as stated (the snapshot overwrite and the append of the change entries of one
  record take effect together or not at all). The stored row and the record differ in
  budget and status, and the \<open>INSERT\<close> of the second change entry raises for a value
  that is too big. The first change entry is committed all the same: the record's
  change set is in the file in part, neither whole nor rolled back.
\<close>

theorem partial_change_log_is_committed:
  "compare_fields house_row renovated =
     [\<lparr>field_name = ''budget'', old_value = ''10k'', new_value = ''20k''\<rparr>,
      \<lparr>field_name = ''status'', old_value = ''Open'', new_value = ''Closed''\<rparr>]
   \<and> save_projects faulty [renovated] house_store =
       (None, house_store
          \<lparr>file_changes := [\<lparr>ch_list_id = Text ''a1'', ch_field_name = ''budget'',
                             ch_old_value = ''10k'', ch_new_value = ''20k'',
                             ch_change_date = Text (clock 1)\<rparr>],
           projects := [house_row],
           changes := [\<lparr>ch_list_id = Text ''a1'', ch_field_name = ''budget'',
                        ch_old_value = ''10k'', ch_new_value = ''20k'',
                        ch_change_date = Text (clock 1)\<rparr>],
           ticks := 3, stmts := 4,
           printed := [ErrorProcessingProject (Some ''a1'') DataError]\<rparr>)"
  by (simp add: run_defs sample_defs)

text \<open>
  C1, amended. The program never undoes the writes of a record. Take a record whose id
  has a stored row when its turn comes, after the records \<open>ps\<close> of the batch, and let
  its \<open>SELECT\<close>, its \<open>UPDATE\<close> and the \<open>INSERT\<close>s of its first \<open>k\<close> change entries
  succeed and the \<open>INSERT\<close> of the next change entry raise. The record prints its error
  line with the exception of that statement. When SQLite undoes that statement alone,
  the \<open>UPDATE\<close> and exactly the first \<open>k\<close> change entries, each with its own clock
  reading, stay in the transaction: they are what the file holds when the batch ends
  with this record, and they stay in front of whatever the later records \<open>qs\<close> append
  when no later failure rolls the transaction back. When SQLite rolls the transaction
  back on that statement, a batch ending with this record leaves the file as it was
  before the batch: the writes of the records \<open>ps\<close> are lost with those of the record.
\<close>

theorem failed_insert_keeps_earlier_writes:
  assumes "\<not> connect_raises e" and "\<not> commit_raises e"
    and s: "s = for_projects e ps (connect s0)"
    and sel: "sql_select (bind (list_id p)) (projects s) = Some r"
    and k: "k < length (compare_fields r p)"
    and ok: "\<forall>i<k + 2. \<not> raises e (stmts s + i)"
    and bad: "raises e (stmts s + k + 2)"
  shows "printed (process_project e p s) =
           printed s @ [ErrorProcessingProject (list_id p) (raised e (stmts s + k + 2))]
       \<and> (\<not> rolls_back e (stmts s + k + 2) \<longrightarrow>
            file_projects (snd (save_projects e (ps @ [p]) s0)) = projects (updated e p s)
            \<and> file_changes (snd (save_projects e (ps @ [p]) s0)) =
                changes s @ logged_rows e p (Suc (ticks s)) (take k (compare_fields r p)))
       \<and> (\<not> rolls_back e (stmts s + k + 2)
            \<and> (\<forall>n>stmts s + k + 2. raises e n \<longrightarrow> \<not> rolls_back e n) \<longrightarrow>
            (\<exists>rest. file_changes (snd (save_projects e (ps @ p # qs) s0)) =
                changes s @ logged_rows e p (Suc (ticks s)) (take k (compare_fields r p))
                  @ rest))
       \<and> (rolls_back e (stmts s + k + 2) \<longrightarrow>
            file_projects (snd (save_projects e (ps @ [p]) s0)) = file_projects s0
            \<and> file_changes (snd (save_projects e (ps @ [p]) s0)) = file_changes s0)"
proof -
  let ?m = "stmts s + k + 2"
  let ?L = "logged_rows e p (Suc (ticks s)) (take k (compare_fields r p))"
  let ?U = "(updated e p s)
      \<lparr>ticks := Suc (ticks s) + Suc k, stmts := Suc (Suc (stmts s)) + Suc k,
       changes := changes s @ ?L\<rparr>"
  have P: "process_project e p s =
      print (ErrorProcessingProject (list_id p) (raised e ?m)) (fail e ?m ?U)"
    by (rule process_project_fails_at_insert [OF sel k ok bad])
  have fs: "file_projects s = file_projects s0" "file_changes s = file_changes s0"
    unfolding s by (simp_all add: for_projects_keeps_file connect_keeps_file)
  have run: "snd (save_projects e (ps @ qs') s0) = commit (for_projects e qs' s)" for qs'
    using assms(1,2) by (simp add: save_projects_def Let_def for_projects_append s)
  have one: "for_projects e [p] s = process_project e p s"
    by (simp add: for_projects_def)
  have a: "printed (process_project e p s) =
      printed s @ [ErrorProcessingProject (list_id p) (raised e ?m)]"
    unfolding P by (simp add: print_def fail_def rollback_def updated_def)
  have b: "\<not> rolls_back e ?m \<longrightarrow>
      file_projects (snd (save_projects e (ps @ [p]) s0)) = projects (updated e p s)
      \<and> file_changes (snd (save_projects e (ps @ [p]) s0)) = changes s @ ?L"
    unfolding run one P by (simp add: commit_def print_def fail_def)
  have d: "rolls_back e ?m \<longrightarrow>
      file_projects (snd (save_projects e (ps @ [p]) s0)) = file_projects s0
      \<and> file_changes (snd (save_projects e (ps @ [p]) s0)) = file_changes s0"
    unfolding run one P
    by (simp add: commit_def print_def fail_def rollback_def updated_def fs)
  have c: "\<not> rolls_back e ?m \<and> (\<forall>n>?m. raises e n \<longrightarrow> \<not> rolls_back e n) \<longrightarrow>
      (\<exists>rest. file_changes (snd (save_projects e (ps @ p # qs) s0)) =
         changes s @ ?L @ rest)"
  proof (intro impI)
    assume h: "\<not> rolls_back e ?m \<and> (\<forall>n>?m. raises e n \<longrightarrow> \<not> rolls_back e n)"
    let ?s1 = "process_project e p s"
    have st: "stmts ?s1 = Suc ?m" "changes ?s1 = changes s @ ?L"
      using h unfolding P by (simp_all add: print_def fail_def)
    have "\<forall>n\<ge>stmts ?s1. raises e n \<longrightarrow> \<not> rolls_back e n"
      using h unfolding st(1) by (simp add: Suc_le_eq)
    from for_projects_grows [OF this, of qs] obtain rest where
      "changes (for_projects e qs ?s1) = changes ?s1 @ rest" by blast
    then have "file_changes (snd (save_projects e (ps @ p # qs) s0)) =
        changes s @ ?L @ rest"
      unfolding run by (simp add: for_projects_Cons commit_def st(2))
    then show "\<exists>rest. file_changes (snd (save_projects e (ps @ p # qs) s0)) =
        changes s @ ?L @ rest" by blast
  qed
  from a b c d show ?thesis by blast
qed

theorem failed_insert_keeps_earlier_writes_witness:
  "\<not> connect_raises faulty \<and> \<not> commit_raises faulty
   \<and> sql_select (bind (list_id renovated))
         (projects (for_projects faulty [] (connect house_store))) = Some house_row
   \<and> 1 < length (compare_fields house_row renovated)
   \<and> \<not> raises faulty 0 \<and> \<not> raises faulty 1 \<and> \<not> raises faulty 2 \<and> raises faulty 3
   \<and> \<not> rolls_back faulty 3
   \<and> printed (process_project faulty renovated (connect house_store)) =
       [ErrorProcessingProject (Some ''a1'') DataError]
   \<and> file_projects (snd (save_projects faulty [renovated] house_store)) = [house_row]
   \<and> file_changes (snd (save_projects faulty [renovated] house_store)) =
       [\<lparr>ch_list_id = Text ''a1'', ch_field_name = ''budget'', ch_old_value = ''10k'',
         ch_new_value = ''20k'', ch_change_date = Text (clock 1)\<rparr>]
   \<and> \<not> connect_raises disk_full \<and> \<not> commit_raises disk_full
   \<and> \<not> raises disk_full 0 \<and> \<not> raises disk_full 1 \<and> \<not> raises disk_full 2
   \<and> raises disk_full 3 \<and> rolls_back disk_full 3
   \<and> file_projects (snd (save_projects disk_full [renovated] house_store)) = [house_row]
   \<and> file_changes (snd (save_projects disk_full [renovated] house_store)) = []"
proof -
  let ?s = "for_projects faulty [] (connect house_store)"
  let ?t = "for_projects disk_full [] (connect house_store)"
  have s: "?s = connect house_store" "?t = connect house_store"
    by (simp_all add: for_projects_def)
  have z: "stmts (connect house_store) = 0" "ticks (connect house_store) = 0"
    "changes (connect house_store) = []" "printed (connect house_store) = []"
    "file_projects house_store = [house_row]" "file_changes house_store = []"
    by (simp_all add: connect_def sample_defs)
  have cf: "compare_fields house_row renovated =
     [\<lparr>field_name = ''budget'', old_value = ''10k'', new_value = ''20k''\<rparr>,
      \<lparr>field_name = ''status'', old_value = ''Open'', new_value = ''Closed''\<rparr>]"
    by (simp add: run_defs sample_defs)
  have h: "\<not> connect_raises faulty" "\<not> commit_raises faulty"
    "sql_select (bind (list_id renovated)) (projects ?s) = Some house_row"
    "1 < length (compare_fields house_row renovated)"
    unfolding cf by (simp_all add: run_defs sample_defs)
  have r: "\<not> raises faulty 0" "\<not> raises faulty 1" "\<not> raises faulty 2" "raises faulty 3"
    "\<not> rolls_back faulty 3"
    by (simp_all add: sample_defs)
  have ok: "\<forall>i<1 + 2. \<not> raises faulty (stmts ?s + i)"
    unfolding s z by (simp add: sample_defs)
  have bad: "raises faulty (stmts ?s + 1 + 2)"
    unfolding s z by (simp add: sample_defs)
  have nr: "\<not> rolls_back faulty (stmts ?s + 1 + 2)"
    unfolding s z by (simp add: sample_defs)
  have h': "\<not> connect_raises disk_full" "\<not> commit_raises disk_full"
    "sql_select (bind (list_id renovated)) (projects ?t) = Some house_row"
    unfolding cf by (simp_all add: run_defs sample_defs)
  have r': "\<not> raises disk_full 0" "\<not> raises disk_full 1" "\<not> raises disk_full 2"
    "raises disk_full 3" "rolls_back disk_full 3"
    by (simp_all add: sample_defs)
  have ok': "\<forall>i<1 + 2. \<not> raises disk_full (stmts ?t + i)"
    unfolding s z by (simp add: sample_defs)
  have bad': "raises disk_full (stmts ?t + 1 + 2)"
    unfolding s z by (simp add: sample_defs)
  have rb: "rolls_back disk_full (stmts ?t + 1 + 2)"
    unfolding s z by (simp add: sample_defs)
  have up: "projects (updated faulty renovated (connect house_store)) = [house_row]"
    by (simp add: updated_def run_defs sample_defs)
  have lg: "logged_rows faulty renovated (Suc 0)
        (take 1 (compare_fields house_row renovated)) =
       [\<lparr>ch_list_id = Text ''a1'', ch_field_name = ''budget'', ch_old_value = ''10k'',
         ch_new_value = ''20k'', ch_change_date = Text (clock 1)\<rparr>]"
    unfolding cf by (simp add: logged_def bind_def sample_defs)
  have ev: "raised faulty (0 + 1 + 2) = DataError" "list_id renovated = Some ''a1''"
    by (simp_all add: sample_defs)
  from failed_insert_keeps_earlier_writes [OF h(1,2) refl h(3,4) ok bad, of "[]"] nr
  have "printed (process_project faulty renovated ?s) =
          printed ?s @ [ErrorProcessingProject (list_id renovated)
                          (raised faulty (stmts ?s + 1 + 2))]"
    and "file_projects (snd (save_projects faulty ([] @ [renovated]) house_store)) =
          projects (updated faulty renovated ?s)"
    and "file_changes (snd (save_projects faulty ([] @ [renovated]) house_store)) =
          changes ?s @ logged_rows faulty renovated (Suc (ticks ?s))
            (take 1 (compare_fields house_row renovated))"
    by blast+
  then have c1: "printed (process_project faulty renovated (connect house_store)) =
       [ErrorProcessingProject (Some ''a1'') DataError]"
    and c2: "file_projects (snd (save_projects faulty [renovated] house_store)) = [house_row]"
    and c3: "file_changes (snd (save_projects faulty [renovated] house_store)) =
       [\<lparr>ch_list_id = Text ''a1'', ch_field_name = ''budget'', ch_old_value = ''10k'',
         ch_new_value = ''20k'', ch_change_date = Text (clock 1)\<rparr>]"
    unfolding s z up lg ev by simp_all
  from failed_insert_keeps_earlier_writes [OF h'(1,2) refl h'(3) h(4) ok' bad', of "[]"] rb
  have "file_projects (snd (save_projects disk_full ([] @ [renovated]) house_store)) =
          file_projects house_store"
    and "file_changes (snd (save_projects disk_full ([] @ [renovated]) house_store)) =
          file_changes house_store"
    by blast+
  then have c4: "file_projects (snd (save_projects disk_full [renovated] house_store)) =
       [house_row]"
    and c5: "file_changes (snd (save_projects disk_full [renovated] house_store)) = []"
    unfolding z by simp_all
  from h h' r r' c1 c2 c3 c4 c5 show ?thesis by blast
qed

text \<open>
  C4 (the second of two runs of the same batch writes nothing and reports every record
  unchanged). The store holds \<open>a1\<close> with status \<open>Open\<close>, the batch holds \<open>a1\<close> with
  status \<open>Closed\<close>, and nothing raises. The first run logs the change of status, but
  its \<open>UPDATE\<close> selects no row, so the stored row still says \<open>Open\<close>. The second run
  of the same batch therefore finds the same difference: it prints the line for an
  updated project again and logs the same change a second time.
\<close>

theorem second_run_logs_change_again:
  "file_projects (snd (save_projects quiet [house\<lparr>status := ''Closed''\<rparr>] house_store)) =
     [house_row]
   \<and> printed (snd (save_projects quiet [house\<lparr>status := ''Closed''\<rparr>]
                 (snd (save_projects quiet [house\<lparr>status := ''Closed''\<rparr>] house_store)))) =
     [ProjectUpdated ''House'' 1, ProjectUpdated ''House'' 1]
   \<and> file_projects (snd (save_projects quiet [house\<lparr>status := ''Closed''\<rparr>]
                 (snd (save_projects quiet [house\<lparr>status := ''Closed''\<rparr>] house_store)))) =
     [house_row]
   \<and> file_changes (snd (save_projects quiet [house\<lparr>status := ''Closed''\<rparr>]
                 (snd (save_projects quiet [house\<lparr>status := ''Closed''\<rparr>] house_store)))) =
     [\<lparr>ch_list_id = Text ''a1'', ch_field_name = ''status'', ch_old_value = ''Open'',
       ch_new_value = ''Closed'', ch_change_date = Text (clock 1)\<rparr>,
      \<lparr>ch_list_id = Text ''a1'', ch_field_name = ''status'', ch_old_value = ''Open'',
       ch_new_value = ''Closed'', ch_change_date = Text (clock 3)\<rparr>]"
  by (simp add: run_defs sample_defs numeral_3_eq_3)

end
